theory Spec2Isabelle
  imports Main "HOL-Library.Sublist"
begin

section \<open>Strings\<close>

text \<open>
  A Go \<open>string\<close> is a byte sequence, here a \<open>char list\<close>. \<open>strings.Contains(s, substr)\<close>
  reports whether \<open>substr\<close> occurs in \<open>s\<close> as a contiguous run of bytes; the comparison
  is exact, so it is case-sensitive.
\<close>

definition Contains :: "string \<Rightarrow> string \<Rightarrow> bool" where
  "Contains s substr = sublist substr s"

text \<open>
  \<open>strings.ToUpper\<close> and \<open>strings.ToLower\<close>. On a string whose bytes are all ASCII (below
  \<open>utf8.RuneSelf\<close>, 128) the letters \<open>a\<close>..\<open>z\<close> (bytes 97..122), respectively \<open>A\<close>..\<open>Z\<close>
  (bytes 65..90), are shifted by 32 and every other byte is kept. Any other string goes
  through \<open>strings.Map\<close> with \<open>unicode.ToUpper\<close>, respectively \<open>unicode.ToLower\<close>, which
  decodes UTF-8 and maps the runes by the Unicode tables (so U+0131 becomes \<open>I\<close>, and
  U+212A becomes \<open>k\<close>). That part is code of the Go library, not of this program: it is
  the parameter \<open>mapUpper\<close>, respectively \<open>mapLower\<close>, of the functions below.
\<close>

definition isASCII :: "string \<Rightarrow> bool" where
  "isASCII s = list_all (\<lambda>c. (of_char c :: nat) < 128) s"

definition upper_char :: "char \<Rightarrow> char" where
  "upper_char c =
     (let n = (of_char c :: nat) in if 97 \<le> n \<and> n \<le> 122 then char_of (n - 32) else c)"

definition lower_char :: "char \<Rightarrow> char" where
  "lower_char c =
     (let n = (of_char c :: nat) in if 65 \<le> n \<and> n \<le> 90 then char_of (n + 32) else c)"

definition ToUpper :: "(string \<Rightarrow> string) \<Rightarrow> string \<Rightarrow> string" where
  "ToUpper mapUpper s = (if isASCII s then map upper_char s else mapUpper s)"

definition ToLower :: "(string \<Rightarrow> string) \<Rightarrow> string \<Rightarrow> string" where
  "ToLower mapLower s = (if isASCII s then map lower_char s else mapLower s)"

section \<open>The log store\<close>

text \<open>
  \<open>type logManager struct { mu sync.Mutex; logs []string }\<close>. Every method holds
  \<open>mu\<close> for its whole body, so each one is an atomic function of the stored sequence.
\<close>

record logManager =
  logs :: "string list"

definition AddLog :: "string \<Rightarrow> logManager \<Rightarrow> logManager" where
  "AddLog log lm = lm\<lparr>logs := logs lm @ [log]\<rparr>"

text \<open>\<open>GetFilteredLogs\<close> and \<open>GetSearchFilteredLogs\<close> of the collector (Ui3/Server); the
  first argument is the library's Unicode path of \<open>strings.ToUpper\<close>, respectively
  \<open>strings.ToLower\<close>.\<close>

definition GetFilteredLogs ::
  "(string \<Rightarrow> string) \<Rightarrow> string \<Rightarrow> logManager \<Rightarrow> string list" where
  "GetFilteredLogs mapUpper filt lm =
     (if filt = ''ALL'' then [] @ logs lm
      else filter (\<lambda>log. Contains (ToUpper mapUpper log) (ToUpper mapUpper filt)) (logs lm))"

definition GetSearchFilteredLogs ::
  "(string \<Rightarrow> string) \<Rightarrow> string \<Rightarrow> logManager \<Rightarrow> string list" where
  "GetSearchFilteredLogs mapLower query lm =
     (if query = [] then [] @ logs lm
      else filter (\<lambda>log. Contains (ToLower mapLower log) (ToLower mapLower query)) (logs lm))"

text \<open>
  \<open>GetLogs\<close> of the producer (Ui4/Client). \<open>lm.logs[len(lm.logs)-limit:]\<close> panics when the
  lower bound exceeds the length, which is the case for a negative \<open>limit\<close>. The method
  only reads the store; the manager is returned as it was.
\<close>

datatype error = SliceBoundsOutOfRange

definition GetLogs :: "int \<Rightarrow> logManager \<Rightarrow> (error + string list) \<times> logManager" where
  "GetLogs limit lm =
     (if int (length (logs lm)) > limit then
        (if int (length (logs lm)) - limit > int (length (logs lm))
         then (Inl SliceBoundsOutOfRange, lm)
         else (Inr (drop (nat (int (length (logs lm)) - limit)) (logs lm)), lm))
      else (Inr ([] @ logs lm), lm))"

section \<open>Severity colouring\<close>

text \<open>\<open>colorizeLog\<close>: the result of \<open>fmt.Sprintf("[green]%s[white]", log)\<close> is the
  concatenation of the tag, the line and the closing tag.\<close>

definition colorizeLog :: "string \<Rightarrow> string" where
  "colorizeLog log =
     (if Contains log ''INFO'' then ''[green]'' @ log @ ''[white]''
      else if Contains log ''WARNING'' then ''[yellow]'' @ log @ ''[white]''
      else if Contains log ''ERROR'' then ''[red]'' @ log @ ''[white]''
      else log)"

text \<open>
  The specification's wording of the classification: the classes are tried in the order
  INFO, WARNING, ERROR, the first one whose keyword occurs in the raw text wins, and a
  text with none of the keywords is OTHER.
\<close>

datatype severity = INFO | WARNING | ERROR | OTHER

definition keyword :: "severity \<Rightarrow> string" where
  "keyword sev =
     (case sev of INFO \<Rightarrow> ''INFO'' | WARNING \<Rightarrow> ''WARNING'' | ERROR \<Rightarrow> ''ERROR'' | OTHER \<Rightarrow> [])"

definition spec_severity :: "string \<Rightarrow> severity" where
  "spec_severity raw =
     (case filter (\<lambda>sev. sublist (keyword sev) raw) [INFO, WARNING, ERROR] of
        [] \<Rightarrow> OTHER
      | sev # _ \<Rightarrow> sev)"

text \<open>How a class shows in the stored text: the colour tags of \<open>colorizeLog\<close>.\<close>

definition severity_markup :: "severity \<Rightarrow> string \<Rightarrow> string" where
  "severity_markup sev log =
     (case sev of
        INFO \<Rightarrow> ''[green]'' @ log @ ''[white]''
      | WARNING \<Rightarrow> ''[yellow]'' @ log @ ''[white]''
      | ERROR \<Rightarrow> ''[red]'' @ log @ ''[white]''
      | OTHER \<Rightarrow> log)"

section \<open>Connection state of the collector\<close>

text \<open>
  Times are nanosecond counts (\<open>time.Duration\<close> is a count of nanoseconds); a socket is
  named by a handle. \<open>heartbeatTimer = 3 * time.Second\<close>.
\<close>

definition heartbeat :: string where
  "heartbeat = ''_HEARTBEAT_''"

definition heartbeatTimer :: int where
  "heartbeatTimer = 3 * 1000000000"

record ConnectionState =
  conn :: "nat option"
  alive :: bool
  lastHeartbeat :: int

definition NewConnectionState :: ConnectionState where
  "NewConnectionState = \<lparr>conn = None, alive = False, lastHeartbeat = 0\<rparr>"

text \<open>
  What \<open>main\<close> shares between its goroutines: the connection state, the log manager, and
  (outside the program) the set of sockets that are open.
\<close>

record collector =
  connState :: ConnectionState
  logStore :: logManager
  openConns :: "nat set"

definition Close :: "nat \<Rightarrow> nat set \<Rightarrow> nat set" where
  "Close c fds = fds - {c}"

text \<open>
  One round of the loop of \<open>acceptConnections\<close> (Ui6/Server) after \<open>ln.Accept()\<close> has
  returned the open socket \<open>newConn\<close> at time \<open>now\<close>. The accept loops of the other
  collectors assign the same three variables in the same order, except the one below.
\<close>

definition acceptConnections :: "int \<Rightarrow> nat \<Rightarrow> collector \<Rightarrow> collector" where
  "acceptConnections now newConn w =
     (let fds0 = insert newConn (openConns w);
          fds1 = (case conn (connState w) of Some c \<Rightarrow> Close c fds0 | None \<Rightarrow> fds0)
      in w\<lparr>connState := (connState w)\<lparr>conn := Some newConn, alive := True, lastHeartbeat := now\<rparr>,
           openConns := fds1\<rparr>)"

text \<open>
  The accept goroutine of the collector with four log panes (unnamed/part_000): the
  assignment \<open>clientAlive = true\<close> is commented out there.
\<close>

definition acceptConnections_part_000 :: "int \<Rightarrow> nat \<Rightarrow> collector \<Rightarrow> collector" where
  "acceptConnections_part_000 now newConn w =
     (let fds0 = insert newConn (openConns w);
          fds1 = (case conn (connState w) of Some c \<Rightarrow> Close c fds0 | None \<Rightarrow> fds0)
      in w\<lparr>connState := (connState w)\<lparr>conn := Some newConn, lastHeartbeat := now\<rparr>,
           openConns := fds1\<rparr>)"

text \<open>
  \<open>handleClient\<close>: the body of the scanner loop for one line \<open>message\<close> read at time
  \<open>now\<close>, the deferred function that runs when the loop ends, and the whole handler on
  the lines the scanner delivers.
\<close>

definition handleLine :: "int \<Rightarrow> string \<Rightarrow> collector \<Rightarrow> collector" where
  "handleLine now message w =
     (if message = heartbeat
      then w\<lparr>connState := (connState w)\<lparr>alive := True, lastHeartbeat := now\<rparr>\<rparr>
      else w\<lparr>logStore := AddLog (colorizeLog message) (logStore w)\<rparr>)"

definition handleClient_exit :: "nat \<Rightarrow> collector \<Rightarrow> collector" where
  "handleClient_exit c w =
     w\<lparr>connState := (connState w)\<lparr>alive := False\<rparr>, openConns := Close c (openConns w)\<rparr>"

fun handleClient :: "nat \<Rightarrow> (int \<times> string) list \<Rightarrow> collector \<Rightarrow> collector" where
  "handleClient c [] w = handleClient_exit c w"
| "handleClient c ((now, message) # rest) w = handleClient c rest (handleLine now message w)"

text \<open>
  One tick of \<open>monitorConnection\<close> at time \<open>now\<close>: \<open>time.Since(lastHeartbeat)\<close> is
  \<open>now - lastHeartbeat\<close>. The result is \<open>isConnected\<close> and the new state.
\<close>

definition monitorConnection :: "int \<Rightarrow> collector \<Rightarrow> bool \<times> collector" where
  "monitorConnection now w =
     (let cs = connState w;
          cs' = (if conn cs \<noteq> None \<and> now - lastHeartbeat cs > heartbeatTimer
                 then cs\<lparr>alive := False\<rparr> else cs)
      in (conn cs' \<noteq> None \<and> alive cs', w\<lparr>connState := cs'\<rparr>))"

text \<open>The events of the collector, each with the time at which it happens.\<close>

datatype event = Accept nat | Line string | MonitorTick | ReadLoopExit nat

fun step :: "int \<Rightarrow> event \<Rightarrow> collector \<Rightarrow> collector" where
  "step now (Accept newConn) w = acceptConnections now newConn w"
| "step now (Line message) w = handleLine now message w"
| "step now MonitorTick w = snd (monitorConnection now w)"
| "step now (ReadLoopExit c) w = handleClient_exit c w"

fun run :: "(int \<times> event) list \<Rightarrow> collector \<Rightarrow> collector" where
  "run [] w = w"
| "run ((now, ev) # rest) w = run rest (step now ev w)"

definition initial :: collector where
  "initial = \<lparr>connState = NewConnectionState, logStore = \<lparr>logs = []\<rparr>, openConns = {}\<rparr>"

text \<open>
  \<open>handleClient\<close> is started by the accept loop only, after the socket is installed: in a
  run of the collector a line or the end of a read loop comes after some accept.
\<close>

fun handlers_follow_accept :: "bool \<Rightarrow> (int \<times> event) list \<Rightarrow> bool" where
  "handlers_follow_accept accepted [] = True"
| "handlers_follow_accept accepted ((now, Accept c) # rest) = handlers_follow_accept True rest"
| "handlers_follow_accept accepted ((now, MonitorTick) # rest) =
     handlers_follow_accept accepted rest"
| "handlers_follow_accept accepted ((now, Line message) # rest) =
     (accepted \<and> handlers_follow_accept accepted rest)"
| "handlers_follow_accept accepted ((now, ReadLoopExit c) # rest) =
     (accepted \<and> handlers_follow_accept accepted rest)"

text \<open>
  The specification's wording of liveness: among the events of the run, one of a given
  kind happened no longer than the timeout before \<open>now\<close>. The specification counts the
  lines, heartbeat or payload (\<open>is_Line\<close>); the events that write \<open>lastHeartbeat\<close> in the
  program are the accepts and the heartbeat lines (\<open>stamps\<close>).
\<close>

fun is_Line :: "event \<Rightarrow> bool" where
  "is_Line (Line message) = True"
| "is_Line ev = False"

fun stamps :: "event \<Rightarrow> bool" where
  "stamps (Accept c) = True"
| "stamps (Line message) = (message = heartbeat)"
| "stamps MonitorTick = False"
| "stamps (ReadLoopExit c) = False"

definition arrived_within :: "(event \<Rightarrow> bool) \<Rightarrow> (int \<times> event) list \<Rightarrow> int \<Rightarrow> bool" where
  "arrived_within P evs now = list_ex (\<lambda>(t, ev). P ev \<and> now - t \<le> heartbeatTimer) evs"

section \<open>The producer's key handler\<close>

text \<open>
  The variables of \<open>main\<close> (Ui4/Client) that the handler of \<open>SetInputCapture\<close> and the
  sender goroutine use: the flag \<open>isConnected\<close>, the dialed socket, the local log
  manager, the messages handed over on \<open>logChan\<close> and not yet written, the lines written
  to the socket, and whether \<open>app.Stop()\<close> was called.
\<close>

record client =
  isConnected :: bool
  dialedConn :: "nat option"
  localLogs :: logManager
  logChan :: "string list"
  wire :: "string list"
  stopped :: bool

text \<open>
  The handler gets the rune of the key event, the formatted time stamp, and whether the
  sender goroutine is waiting on the unbuffered \<open>logChan\<close> (the \<open>select\<close> with
  \<open>default\<close> does not block). It returns the event it passes on, or nothing.
  The runes: I 73, i 105, W 87, w 119, E 69, e 101, Q 81, q 113.
\<close>

definition sendLog :: "string \<Rightarrow> bool \<Rightarrow> client \<Rightarrow> nat option \<times> client" where
  "sendLog logMsg receiverReady c =
     (let c1 = c\<lparr>localLogs := AddLog logMsg (localLogs c)\<rparr>
      in if receiverReady then (None, c1\<lparr>logChan := logChan c1 @ [logMsg]\<rparr>)
         else (None, c1\<lparr>localLogs := AddLog ''Failed to send log to server.'' (localLogs c1)\<rparr>))"

definition inputCapture :: "nat \<Rightarrow> string \<Rightarrow> bool \<Rightarrow> client \<Rightarrow> nat option \<times> client" where
  "inputCapture rune timestamp receiverReady c =
     (if \<not> isConnected c
      then (None, c\<lparr>localLogs := AddLog ''Connection is broken. Unable to send log.'' (localLogs c)\<rparr>)
      else if rune = 73 \<or> rune = 105
        then sendLog (timestamp @ '' INFO: Info log sent'') receiverReady c
      else if rune = 87 \<or> rune = 119
        then sendLog (timestamp @ '' WARNING: Warning log sent'') receiverReady c
      else if rune = 69 \<or> rune = 101
        then sendLog (timestamp @ '' ERROR: Error log sent'') receiverReady c
      else if rune = 81 \<or> rune = 113 then (None, c\<lparr>stopped := True\<rparr>)
      else (Some rune, c))"

text \<open>
  The sender goroutine on a message from \<open>logChan\<close>: it writes the line only when a socket
  is there and the flag is set; a failed write or flush closes the socket.
\<close>

definition senderLogMsg :: "bool \<Rightarrow> client \<Rightarrow> client" where
  "senderLogMsg writeOk c =
     (case logChan c of
        [] \<Rightarrow> c
      | logMsg # rest \<Rightarrow>
          (let c1 = c\<lparr>logChan := rest\<rparr>
           in if dialedConn c1 \<noteq> None \<and> isConnected c1
              then (if writeOk then c1\<lparr>wire := wire c1 @ [logMsg @ [CHR 0x0A]]\<rparr>
                    else c1\<lparr>dialedConn := None, isConnected := False\<rparr>)
              else c1))"

section \<open>Auxiliary facts\<close>

lemma isASCII_INFO: "isASCII ''INFO''"
  by code_simp

lemma isASCII_WARNING: "isASCII ''WARNING''"
  by code_simp

lemma isASCII_ERROR: "isASCII ''ERROR''"
  by code_simp

lemma upper_INFO: "map upper_char ''INFO'' = ''INFO''"
  by code_simp

lemma upper_WARNING: "map upper_char ''WARNING'' = ''WARNING''"
  by code_simp

lemma upper_ERROR: "map upper_char ''ERROR'' = ''ERROR''"
  by code_simp

lemma upper_keyword:
  assumes "sev \<noteq> OTHER"
  shows "map upper_char (keyword sev) = keyword sev"
proof (cases sev)
  case INFO
  then show ?thesis by (simp only: keyword_def severity.case upper_INFO)
next
  case WARNING
  then show ?thesis by (simp only: keyword_def severity.case upper_WARNING)
next
  case ERROR
  then show ?thesis by (simp only: keyword_def severity.case upper_ERROR)
next
  case OTHER
  with assms show ?thesis by simp
qed

lemma isASCII_keyword: "isASCII (keyword sev)"
proof (cases sev)
  case INFO
  then show ?thesis by (simp only: keyword_def severity.case isASCII_INFO)
next
  case WARNING
  then show ?thesis by (simp only: keyword_def severity.case isASCII_WARNING)
next
  case ERROR
  then show ?thesis by (simp only: keyword_def severity.case isASCII_ERROR)
next
  case OTHER
  then show ?thesis by (simp add: keyword_def isASCII_def)
qed

text \<open>The keywords are ASCII and upper-case: \<open>strings.ToUpper\<close> returns them as they are,
  whatever the Unicode path does.\<close>

lemma ToUpper_keyword: "sev \<noteq> OTHER \<Longrightarrow> ToUpper mapUpper (keyword sev) = keyword sev"
  using upper_keyword [of sev] isASCII_keyword [of sev] by (simp add: ToUpper_def)

text \<open>On ASCII text the Unicode path is not taken.\<close>

lemma ToUpper_ASCII: "isASCII s \<Longrightarrow> ToUpper mapUpper s = ToUpper mapUpper' s"
  by (simp add: ToUpper_def)

lemma keyword_not_ALL: "keyword sev \<noteq> ''ALL''"
  by (cases sev) (simp_all add: keyword_def)

lemma Contains_colorizeLog: "Contains (colorizeLog raw) raw"
  unfolding colorizeLog_def Contains_def
  by (simp only: sublist_appendI sublist_order.order_refl if_split conj_commute simp_thms)

lemma colorizeLog_fixed:
  "colorizeLog message = message \<longleftrightarrow>
     \<not> Contains message ''INFO'' \<and> \<not> Contains message ''WARNING''
     \<and> \<not> Contains message ''ERROR''"
  by (auto simp: colorizeLog_def dest: arg_cong [where f = length])

lemma spec_severity_Contains:
  "spec_severity raw = sev \<Longrightarrow> sev \<noteq> OTHER \<Longrightarrow> Contains raw (keyword sev)"
  by (cases sev) (auto simp: spec_severity_def Contains_def keyword_def split: if_splits)

lemma Contains_ToUpper_colorizeLog:
  assumes "Contains raw (keyword sev)" and "sev \<noteq> OTHER"
    and "\<forall>s. \<not> isASCII s \<and> Contains s (keyword sev) \<longrightarrow> Contains (mapUpper s) (keyword sev)"
  shows "Contains (ToUpper mapUpper (colorizeLog raw)) (keyword sev)"
proof -
  from assms(1) have sub: "sublist (keyword sev) (colorizeLog raw)"
    using Contains_colorizeLog [of raw] sublist_order.order_trans
    unfolding Contains_def by blast
  show ?thesis
  proof (cases "isASCII (colorizeLog raw)")
    case True
    from sub have "sublist (map upper_char (keyword sev)) (map upper_char (colorizeLog raw))"
      by (rule map_mono_sublist)
    with upper_keyword [OF assms(2)] True show ?thesis
      by (simp add: Contains_def ToUpper_def)
  next
    case False
    with sub assms(3) have "Contains (mapUpper (colorizeLog raw)) (keyword sev)"
      by (simp add: Contains_def)
    with False show ?thesis by (simp add: ToUpper_def)
  qed
qed

lemma severity_in_filter:
  assumes "spec_severity raw = sev" and "sev \<noteq> OTHER"
    and "\<forall>s. \<not> isASCII s \<and> Contains s (keyword sev) \<longrightarrow> Contains (mapUpper s) (keyword sev)"
  shows "Contains (ToUpper mapUpper (colorizeLog raw)) (keyword sev)"
  using Contains_ToUpper_colorizeLog [OF spec_severity_Contains [OF assms(1,2)] assms(2,3)] .

lemma logs_ingest:
  "logs (foldl (\<lambda>lm raw. AddLog (colorizeLog raw) lm) lm0 raws)
     = logs lm0 @ map colorizeLog raws"
  by (induction raws arbitrary: lm0) (simp_all add: AddLog_def)

lemma subseq_filter_weaker:
  "(\<And>x. P x \<Longrightarrow> Q x) \<Longrightarrow> subseq (filter P xs) (filter Q xs)"
  by (induction xs) auto

lemma GetFilteredLogs_keyword:
  "sev \<noteq> OTHER \<Longrightarrow> GetFilteredLogs mapUpper (keyword sev) lm
     = filter (\<lambda>log. Contains (ToUpper mapUpper log) (keyword sev)) (logs lm)"
  by (simp add: GetFilteredLogs_def keyword_not_ALL ToUpper_keyword)

text \<open>A stored text that is not ASCII goes through the library's mapping: with U+0131
  (bytes C4 B1) mapped to \<open>I\<close>, the entry is returned for the filter INFO.\<close>

lemma not_ASCII_dotless_i: "\<not> isASCII [CHR 0xC4, CHR 0xB1, CHR ''n'', CHR ''f'', CHR ''o'']"
  by code_simp

lemma GetFilteredLogs_dotless_i:
  assumes "mapUpper [CHR 0xC4, CHR 0xB1, CHR ''n'', CHR ''f'', CHR ''o''] = ''INFO''"
  shows "GetFilteredLogs mapUpper ''INFO''
           \<lparr>logs = [[CHR 0xC4, CHR 0xB1, CHR ''n'', CHR ''f'', CHR ''o''], ''plain'']\<rparr>
         = [[CHR 0xC4, CHR 0xB1, CHR ''n'', CHR ''f'', CHR ''o'']]"
proof -
  have k: "ToUpper mapUpper ''INFO'' = ''INFO''"
    using ToUpper_keyword [of INFO mapUpper] by (simp add: keyword_def)
  have u: "ToUpper mapUpper [CHR 0xC4, CHR 0xB1, CHR ''n'', CHR ''f'', CHR ''o''] = ''INFO''"
    using assms not_ASCII_dotless_i by (simp only: ToUpper_def if_False)
  have p: "ToUpper mapUpper ''plain'' = ''PLAIN''"
    unfolding ToUpper_def by code_simp
  have n: "\<not> Contains ''PLAIN'' ''INFO''"
    by code_simp
  have y: "Contains ''INFO'' ''INFO''"
    by code_simp
  show ?thesis
    unfolding GetFilteredLogs_def
    by (simp only: k u p n y filter.simps logManager.simps if_True if_False)
       (simp)
qed

lemma run_append: "run (evs @ evs') w = run evs' (run evs w)"
  by (induction evs arbitrary: w) auto

lemma conn_step: "conn (connState w) \<noteq> None \<Longrightarrow> conn (connState (step now ev w)) \<noteq> None"
  by (cases ev) (simp_all add: acceptConnections_def handleLine_def monitorConnection_def
      handleClient_exit_def Let_def)

lemma conn_accept: "conn (connState (step now (Accept c) w)) \<noteq> None"
  by (simp add: acceptConnections_def Let_def)

lemma alive_step:
  assumes "alive (connState w) \<longrightarrow> conn (connState w) \<noteq> None"
    and "(\<exists>m. ev = Line m) \<longrightarrow> conn (connState w) \<noteq> None"
  shows "alive (connState (step now ev w)) \<longrightarrow> conn (connState (step now ev w)) \<noteq> None"
  using assms
  by (cases ev) (auto simp: acceptConnections_def handleLine_def monitorConnection_def
      handleClient_exit_def Let_def)

text \<open>On a run in which the handlers follow an accept, a live state has a socket, and a
  line finds one installed.\<close>

lemma run_installed:
  assumes "handlers_follow_accept accepted (evs @ [(now, ev)])"
    and "accepted \<longrightarrow> conn (connState w) \<noteq> None"
    and "alive (connState w) \<longrightarrow> conn (connState w) \<noteq> None"
  shows "(alive (connState (run evs w)) \<longrightarrow> conn (connState (run evs w)) \<noteq> None)
       \<and> ((\<exists>m. ev = Line m) \<longrightarrow> conn (connState (run evs w)) \<noteq> None)"
  using assms
proof (induction evs arbitrary: accepted w)
  case Nil
  then show ?case by (cases ev) auto
next
  case (Cons x evs)
  obtain t e where x: "x = (t, e)" by (cases x)
  show ?case
  proof (cases e)
    case (Accept c)
    with Cons.prems x have "handlers_follow_accept True (evs @ [(now, ev)])" by simp
    moreover have "conn (connState (step t e w)) \<noteq> None"
      using Accept conn_accept [of t c w] by simp
    ultimately show ?thesis using Cons.IH [of True "step t e w"] x by simp
  next
    case (Line m)
    with Cons.prems x have a: "accepted"
      and h: "handlers_follow_accept accepted (evs @ [(now, ev)])"
      by auto
    with Cons.prems have "conn (connState w) \<noteq> None" by simp
    then have "conn (connState (step t e w)) \<noteq> None" by (rule conn_step)
    then show ?thesis using Cons.IH [of accepted "step t e w"] h x by simp
  next
    case MonitorTick
    with Cons.prems x have h: "handlers_follow_accept accepted (evs @ [(now, ev)])" by simp
    have "accepted \<longrightarrow> conn (connState (step t e w)) \<noteq> None"
      using Cons.prems(2) conn_step by blast
    moreover have "alive (connState (step t e w)) \<longrightarrow> conn (connState (step t e w)) \<noteq> None"
      using Cons.prems(3) MonitorTick by (intro alive_step) auto
    ultimately show ?thesis using Cons.IH [of accepted "step t e w"] h x by simp
  next
    case (ReadLoopExit c)
    with Cons.prems x have a: "accepted"
      and h: "handlers_follow_accept accepted (evs @ [(now, ev)])"
      by auto
    with Cons.prems have "conn (connState w) \<noteq> None" by simp
    then have "conn (connState (step t e w)) \<noteq> None" by (rule conn_step)
    then show ?thesis using Cons.IH [of accepted "step t e w"] h x by simp
  qed
qed

text \<open>An accept, a heartbeat line, a tick or the end of a read loop at time \<open>now\<close> leaves
  a state whose stamp is not older than the timeout if it is alive.\<close>

lemma step_fresh:
  assumes "alive (connState w) \<longrightarrow> conn (connState w) \<noteq> None"
    and "\<forall>m. ev = Line m \<longrightarrow> m = heartbeat"
  shows "alive (connState (step now ev w)) \<longrightarrow>
           now - lastHeartbeat (connState (step now ev w)) \<le> heartbeatTimer"
  using assms
  by (cases ev) (auto simp: acceptConnections_def handleLine_def monitorConnection_def
      handleClient_exit_def Let_def heartbeatTimer_def)

text \<open>Once a socket is installed, \<open>lastHeartbeat\<close> is the time of an accept or of a
  heartbeat line of the run.\<close>

lemma step_stamp:
  assumes "conn (connState w) \<noteq> None \<longrightarrow>
             (\<exists>(t, e) \<in> H. stamps e \<and> lastHeartbeat (connState w) = t)"
  shows "conn (connState (step t0 e0 w)) \<noteq> None \<longrightarrow>
           (\<exists>(t, e) \<in> insert (t0, e0) H.
               stamps e \<and> lastHeartbeat (connState (step t0 e0 w)) = t)"
  using assms
  by (cases e0) (auto simp: acceptConnections_def handleLine_def monitorConnection_def
      handleClient_exit_def Let_def)

lemma run_stamp:
  assumes "conn (connState w) \<noteq> None \<longrightarrow>
             (\<exists>(t, e) \<in> H. stamps e \<and> lastHeartbeat (connState w) = t)"
  shows "conn (connState (run evs w)) \<noteq> None \<longrightarrow>
           (\<exists>(t, e) \<in> H \<union> set evs. stamps e \<and> lastHeartbeat (connState (run evs w)) = t)"
  using assms
proof (induction evs arbitrary: w H)
  case Nil
  then show ?case by simp
next
  case (Cons x evs)
  obtain t0 e0 where x: "x = (t0, e0)" by (cases x)
  have "conn (connState (run evs (step t0 e0 w))) \<noteq> None \<longrightarrow>
          (\<exists>(t, e) \<in> insert (t0, e0) H \<union> set evs.
              stamps e \<and> lastHeartbeat (connState (run evs (step t0 e0 w))) = t)"
    by (rule Cons.IH) (rule step_stamp [OF Cons.prems])
  then show ?case by (simp add: x)
qed

section \<open>The receive handler and the connection state\<close>

text \<open>
  C1. The claim has the handler set \<open>alive\<close> and refresh \<open>lastHeartbeat\<close> on every line,
  heartbeat or payload. In \<open>handleClient\<close> only the heartbeat branch assigns them; a payload
  line goes to the log manager. After an accept at 0 and a tick at 3.5 s that found the
  stamp too old, a payload line at 5 s leaves \<open>alive\<close> false.
\<close>

theorem payload_line_does_not_touch:
  "\<not> alive (connState (run [(0, Accept 1), (3500000000, MonitorTick),
        (5000000000, Line ''2024-01-01 10:00:00 INFO: boot'')] initial))"
  by (simp add: initial_def NewConnectionState_def acceptConnections_def
      monitorConnection_def handleLine_def heartbeat_def heartbeatTimer_def Let_def)

text \<open>
  C1, as the program has it: a line equal to the heartbeat sentinel sets \<open>alive\<close>, sets
  \<open>lastHeartbeat\<close> to the time of the line and keeps the installed socket; any other line
  leaves the whole connection state as it was.
\<close>

theorem handleLine_touch:
  "(message = heartbeat \<longrightarrow>
      alive (connState (handleLine now message w))
      \<and> lastHeartbeat (connState (handleLine now message w)) = now
      \<and> conn (connState (handleLine now message w)) = conn (connState w))
   \<and> (message \<noteq> heartbeat \<longrightarrow> connState (handleLine now message w) = connState w)"
  by (simp add: handleLine_def)

theorem handleLine_touch_witness:
  "connState (handleLine 7 ''_HEARTBEAT_''
      (initial\<lparr>connState := \<lparr>conn = Some 1, alive = False, lastHeartbeat = 0\<rparr>\<rparr>))
     = \<lparr>conn = Some 1, alive = True, lastHeartbeat = 7\<rparr>
   \<and> connState (handleLine 7 ''ERROR: disk''
      (initial\<lparr>connState := \<lparr>conn = Some 1, alive = False, lastHeartbeat = 0\<rparr>\<rparr>))
     = \<lparr>conn = Some 1, alive = False, lastHeartbeat = 0\<rparr>"
  using
    handleLine_touch [of "''_HEARTBEAT_''" 7
      "initial\<lparr>connState := \<lparr>conn = Some 1, alive = False, lastHeartbeat = 0\<rparr>\<rparr>"]
    handleLine_touch [of "''ERROR: disk''" 7
      "initial\<lparr>connState := \<lparr>conn = Some 1, alive = False, lastHeartbeat = 0\<rparr>\<rparr>"]
  by (simp add: heartbeat_def handleLine_def)

text \<open>
  C2. The claim reads \<open>alive\<close> as: a heartbeat or payload line arrived within the timeout.
  Right after the first accept, at time 10, the state is alive and no line has arrived
  at all.
\<close>

theorem alive_without_line:
  "alive (connState (run [(10, Accept 7)] initial))
   \<and> \<not> arrived_within is_Line [(10, Accept 7)] 10"
  by (simp add: initial_def NewConnectionState_def acceptConnections_def
      arrived_within_def Let_def)

text \<open>
  C2, as the program has it: take any run of the collector from its initial state in which
  lines and read-loop exits follow an accept, ending with an accept, a heartbeat line, a
  monitor tick or a read-loop exit at time \<open>now\<close>. If the state is alive after it, then
  \<open>lastHeartbeat\<close> is at most \<open>heartbeatTimer\<close> (3 s) before \<open>now\<close>, and an accept or a
  heartbeat line of the run happened within that time. A payload line is not among the
  events that refresh the stamp.
\<close>

theorem alive_implies_recent_stamp:
  assumes "handlers_follow_accept False (evs @ [(now, ev)])"
    and "\<forall>m. ev = Line m \<longrightarrow> m = heartbeat"
  shows "alive (connState (run (evs @ [(now, ev)]) initial)) \<longrightarrow>
           now - lastHeartbeat (connState (run (evs @ [(now, ev)]) initial)) \<le> heartbeatTimer
           \<and> arrived_within stamps (evs @ [(now, ev)]) now"
proof
  let ?w = "run (evs @ [(now, ev)]) initial"
  assume a: "alive (connState ?w)"
  have inst: "alive (connState (run evs initial)) \<longrightarrow> conn (connState (run evs initial)) \<noteq> None"
    "(\<exists>m. ev = Line m) \<longrightarrow> conn (connState (run evs initial)) \<noteq> None"
    using run_installed [OF assms(1), of initial]
    by (simp_all add: initial_def NewConnectionState_def)
  have fresh: "now - lastHeartbeat (connState ?w) \<le> heartbeatTimer"
    using step_fresh [OF inst(1) assms(2), of now] a by (simp add: run_append)
  have "conn (connState ?w) \<noteq> None"
    using alive_step [OF inst, of now] a by (simp add: run_append)
  moreover have "conn (connState ?w) \<noteq> None \<longrightarrow>
      (\<exists>(t, e) \<in> {} \<union> set (evs @ [(now, ev)]). stamps e \<and> lastHeartbeat (connState ?w) = t)"
    by (rule run_stamp) (simp add: initial_def NewConnectionState_def)
  ultimately obtain t e where "(t, e) \<in> set (evs @ [(now, ev)])" "stamps e"
      "lastHeartbeat (connState ?w) = t"
    by auto
  with fresh have "arrived_within stamps (evs @ [(now, ev)]) now"
    unfolding arrived_within_def list_ex_iff by blast
  with fresh show "now - lastHeartbeat (connState ?w) \<le> heartbeatTimer
           \<and> arrived_within stamps (evs @ [(now, ev)]) now" by simp
qed

theorem alive_implies_recent_stamp_witness:
  "handlers_follow_accept False
     ([(0, Accept 1), (1000000000, Line ''_HEARTBEAT_''), (4500000000, MonitorTick)]
       @ [(5000000000, Line ''_HEARTBEAT_'')])
   \<and> alive (connState (run
     ([(0, Accept 1), (1000000000, Line ''_HEARTBEAT_''), (4500000000, MonitorTick)]
       @ [(5000000000, Line ''_HEARTBEAT_'')]) initial))
   \<and> arrived_within stamps
     ([(0, Accept 1), (1000000000, Line ''_HEARTBEAT_''), (4500000000, MonitorTick)]
       @ [(5000000000, Line ''_HEARTBEAT_'')]) 5000000000"
  using alive_implies_recent_stamp
    [of "[(0, Accept 1), (1000000000, Line ''_HEARTBEAT_''), (4500000000, MonitorTick)]"
      5000000000 "Line ''_HEARTBEAT_''"]
  by (simp add: heartbeat_def initial_def NewConnectionState_def acceptConnections_def
      handleLine_def monitorConnection_def heartbeatTimer_def Let_def)

text \<open>
  C3. The claim has every accept path set \<open>alive\<close>. The accept goroutine of the collector
  with four panes installs the socket and stamps the time, and leaves \<open>clientAlive\<close> as
  it was: on the initial state it stays false.
\<close>

theorem accept_part_000_keeps_alive:
  "\<not> alive (connState (acceptConnections_part_000 10 7 initial))"
  by (simp add: initial_def NewConnectionState_def acceptConnections_part_000_def Let_def)

text \<open>
  C3, as the program has it: for a socket \<open>newConn\<close> just returned by the listener (so not
  the installed one), \<open>acceptConnections\<close> installs it, sets \<open>alive\<close>, stamps
  \<open>lastHeartbeat\<close> with the time of the accept, and the open sockets afterwards are the
  earlier ones without the replaced connection, plus the new one. The four-pane accept
  goroutine does the same except that it leaves \<open>alive\<close> unchanged.
\<close>

theorem accept_installs:
  assumes "conn (connState w) \<noteq> Some newConn"
  shows "conn (connState (acceptConnections now newConn w)) = Some newConn
       \<and> alive (connState (acceptConnections now newConn w))
       \<and> lastHeartbeat (connState (acceptConnections now newConn w)) = now
       \<and> openConns (acceptConnections now newConn w)
           = insert newConn (openConns w - set_option (conn (connState w)))
       \<and> conn (connState (acceptConnections_part_000 now newConn w)) = Some newConn
       \<and> alive (connState (acceptConnections_part_000 now newConn w)) = alive (connState w)
       \<and> lastHeartbeat (connState (acceptConnections_part_000 now newConn w)) = now
       \<and> openConns (acceptConnections_part_000 now newConn w)
           = insert newConn (openConns w - set_option (conn (connState w)))"
  using assms
  by (auto simp: acceptConnections_def acceptConnections_part_000_def Close_def Let_def
      split: option.splits)

theorem accept_installs_witness:
  "conn (connState (acceptConnections 10 7 initial)) \<noteq> Some 8
   \<and> openConns (acceptConnections 20 8 (acceptConnections 10 7 initial)) = {8}
   \<and> connState (acceptConnections 20 8 (acceptConnections 10 7 initial))
       = \<lparr>conn = Some 8, alive = True, lastHeartbeat = 20\<rparr>"
  using accept_installs [of "acceptConnections 10 7 initial" 8 20]
  by (simp add: acceptConnections_def initial_def NewConnectionState_def Close_def Let_def)

text \<open>
  C4. The claim has every payload line stored unchanged. The handler stores
  \<open>colorizeLog message\<close>: a line with a severity keyword is stored between colour tags.
\<close>

theorem payload_not_stored_verbatim:
  "logs (logStore (handleLine 0 ''2024-01-01 10:00:00 INFO: boot'' initial))
     \<noteq> [''2024-01-01 10:00:00 INFO: boot'']"
  by (simp add: initial_def handleLine_def heartbeat_def AddLog_def colorizeLog_def
      Contains_def sublist_code)

text \<open>
  C4, as the program has it: a line equal to the sentinel is not appended; every other
  line is appended as \<open>colorizeLog\<close> of the line. The stored text contains the line, and it
  equals the line exactly when the line has none of the keywords INFO, WARNING, ERROR.
\<close>

theorem handleLine_store:
  "logs (logStore (handleLine now message w))
     = (if message = heartbeat then logs (logStore w)
        else logs (logStore w) @ [colorizeLog message])
   \<and> Contains (colorizeLog message) message
   \<and> (colorizeLog message = message \<longleftrightarrow>
        \<not> Contains message ''INFO'' \<and> \<not> Contains message ''WARNING''
        \<and> \<not> Contains message ''ERROR'')"
  using Contains_colorizeLog [of message] colorizeLog_fixed [of message]
  by (simp add: handleLine_def AddLog_def)

theorem handleLine_store_witness:
  "logs (logStore (handleLine 3 ''_HEARTBEAT_'' (handleLine 2 ''disk ERROR''
      (handleLine 1 ''plain text'' initial))))
     = [''plain text'', ''[red]disk ERROR[white]'']"
  using handleLine_store [of 3 "''_HEARTBEAT_''"
      "handleLine 2 ''disk ERROR'' (handleLine 1 ''plain text'' initial)"]
    handleLine_store [of 2 "''disk ERROR''" "handleLine 1 ''plain text'' initial"]
    handleLine_store [of 1 "''plain text''" initial]
  by (simp add: heartbeat_def initial_def colorizeLog_def Contains_def sublist_code)

section \<open>Queries on the log store\<close>

text \<open>
  C5. The claim has the query for a class return exactly the entries whose severity,
  derived at ingestion with INFO before WARNING before ERROR, is that class.
  \<open>GetFilteredLogs\<close> matches the upper-cased stored text against the filter word: a line
  classified INFO that also has the word ERROR is returned for the filter ERROR. The
  text is ASCII, so the library's Unicode path is not taken, whatever it does; the
  identity stands for it here.
\<close>

theorem filter_returns_other_severity:
  "spec_severity ''INFO: retry after ERROR'' = INFO
   \<and> GetFilteredLogs (\<lambda>s. s) ''ERROR''
        (foldl (\<lambda>lm raw. AddLog (colorizeLog raw) lm) \<lparr>logs = []\<rparr> [''INFO: retry after ERROR''])
       = [''[green]INFO: retry after ERROR[white]'']"
  by code_simp

text \<open>
  C5, as the program has it: for a filter among INFO, WARNING, ERROR and every store, the
  query returns, in the order of the store, exactly the stored entries whose text,
  upper-cased by \<open>strings.ToUpper\<close>, contains the filter word. This holds whatever the
  library's Unicode path does. On a store filled by ingestion, the entries whose derived
  severity is the filter are all among them, in their order (none is left out), given
  that the Unicode path keeps an occurrence of the upper-case ASCII keyword, as a
  rune-by-rune mapping does; entries of another derived severity can be among them too.
\<close>

theorem GetFilteredLogs_severity:
  assumes "sev \<in> {INFO, WARNING, ERROR}"
  shows "GetFilteredLogs mapUpper (keyword sev) lm
           = filter (\<lambda>log. Contains (ToUpper mapUpper log) (keyword sev)) (logs lm)
       \<and> ((\<forall>s. \<not> isASCII s \<and> Contains s (keyword sev)
                \<longrightarrow> Contains (mapUpper s) (keyword sev))
            \<longrightarrow> subseq (map colorizeLog (filter (\<lambda>raw. spec_severity raw = sev) raws))
                  (GetFilteredLogs mapUpper (keyword sev)
                     (foldl (\<lambda>lm raw. AddLog (colorizeLog raw) lm) \<lparr>logs = []\<rparr> raws)))"
proof -
  from assms have ne: "sev \<noteq> OTHER" by auto
  have incl: "subseq (map colorizeLog (filter (\<lambda>raw. spec_severity raw = sev) raws))
            (GetFilteredLogs mapUpper (keyword sev)
               (foldl (\<lambda>lm raw. AddLog (colorizeLog raw) lm) \<lparr>logs = []\<rparr> raws))"
    if keep: "\<forall>s. \<not> isASCII s \<and> Contains s (keyword sev)
                \<longrightarrow> Contains (mapUpper s) (keyword sev)"
  proof -
    have "subseq (filter (\<lambda>raw. spec_severity raw = sev) raws)
            (filter (\<lambda>raw. Contains (ToUpper mapUpper (colorizeLog raw)) (keyword sev)) raws)"
      by (rule subseq_filter_weaker) (rule severity_in_filter [OF _ ne keep])
    then have "subseq (map colorizeLog (filter (\<lambda>raw. spec_severity raw = sev) raws))
            (map colorizeLog
               (filter (\<lambda>raw. Contains (ToUpper mapUpper (colorizeLog raw)) (keyword sev)) raws))"
      by (rule subseq_map)
    then show ?thesis
      by (simp only: GetFilteredLogs_keyword [OF ne] logs_ingest filter_map comp_def
            logManager.simps append_Nil)
  qed
  with GetFilteredLogs_keyword [OF ne] show ?thesis by blast
qed

theorem GetFilteredLogs_severity_witness:
  "GetFilteredLogs (\<lambda>s. s) ''ERROR''
       \<lparr>logs = [''[red]ERROR: a[white]'', ''plain'', ''[green]INFO then error[white]'']\<rparr>
     = [''[red]ERROR: a[white]'', ''[green]INFO then error[white]'']
   \<and> subseq [''[red]ERROR: a[white]'']
       (GetFilteredLogs (\<lambda>s. s) ''ERROR''
          (foldl (\<lambda>lm raw. AddLog (colorizeLog raw) lm) \<lparr>logs = []\<rparr>
             [''ERROR: a'', ''plain'', ''INFO then ERROR'']))"
proof -
  have h: "ERROR \<in> {INFO, WARNING, ERROR}"
    by simp
  have k: "keyword ERROR = ''ERROR''"
    by (simp add: keyword_def)
  have keep: "\<forall>s. \<not> isASCII s \<and> Contains s (keyword ERROR)
                \<longrightarrow> Contains ((\<lambda>s. s) s) (keyword ERROR)"
    by simp
  have e: "filter (\<lambda>log. Contains (ToUpper (\<lambda>s. s) log) ''ERROR'')
             [''[red]ERROR: a[white]'', ''plain'', ''[green]INFO then error[white]'']
           = [''[red]ERROR: a[white]'', ''[green]INFO then error[white]'']"
    by code_simp
  have f: "map colorizeLog (filter (\<lambda>raw. spec_severity raw = ERROR)
             [''ERROR: a'', ''plain'', ''INFO then ERROR'']) = [''[red]ERROR: a[white]'']"
    by code_simp
  show ?thesis
    using GetFilteredLogs_severity [OF h, of "\<lambda>s. s"
        "\<lparr>logs = [''[red]ERROR: a[white]'', ''plain'', ''[green]INFO then error[white]'']\<rparr>"
        "[''ERROR: a'', ''plain'', ''INFO then ERROR'']"]
      keep e f
    by (simp add: k)
qed

text \<open>
  C6. \<open>colorizeLog\<close> classifies as the specification says: the colour it applies is the one
  of the first class, in the order INFO, WARNING, ERROR, whose keyword occurs in the raw
  text as it is written (case-sensitive), and a text with no keyword is left alone. In
  particular a text with ERROR and with neither INFO nor WARNING gets the class ERROR.
\<close>

theorem colorizeLog_severity:
  "colorizeLog log = severity_markup (spec_severity log) log
   \<and> (Contains log ''ERROR'' \<and> \<not> Contains log ''INFO'' \<and> \<not> Contains log ''WARNING''
        \<longrightarrow> spec_severity log = ERROR \<and> colorizeLog log = ''[red]'' @ log @ ''[white]'')"
  by (simp add: colorizeLog_def spec_severity_def severity_markup_def keyword_def Contains_def)

theorem colorizeLog_severity_witness:
  "Contains ''disk ERROR'' ''ERROR'' \<and> \<not> Contains ''disk ERROR'' ''INFO''
   \<and> \<not> Contains ''disk ERROR'' ''WARNING''
   \<and> spec_severity ''disk ERROR'' = ERROR
   \<and> colorizeLog ''disk ERROR'' = ''[red]disk ERROR[white]''"
  using colorizeLog_severity [of "''disk ERROR''"]
  by (simp add: Contains_def sublist_code severity_markup_def)

text \<open>
  C7. After any sequence of \<open>AddLog\<close> calls, \<open>GetFilteredLogs\<close> with the filter ALL returns
  the entries that were there before followed by every appended entry, in the order of
  the calls. The result is a list value of its own: later appends do not reach it.
\<close>

theorem GetFilteredLogs_ALL_order:
  "GetFilteredLogs mapUpper ''ALL'' (foldl (\<lambda>lm log. AddLog log lm) lm0 entries)
     = logs lm0 @ entries"
  by (induction entries arbitrary: lm0) (simp_all add: GetFilteredLogs_def AddLog_def)

text \<open>
  C8. On every store, \<open>GetSearchFilteredLogs\<close> with the empty query returns what
  \<open>GetFilteredLogs\<close> returns for ALL, that is every entry.
\<close>

theorem empty_search_is_ALL:
  "GetSearchFilteredLogs mapLower [] lm = GetFilteredLogs mapUpper ''ALL'' lm
   \<and> GetSearchFilteredLogs mapLower [] lm = logs lm"
  by (simp add: GetSearchFilteredLogs_def GetFilteredLogs_def)

section \<open>The producer\<close>

text \<open>
  C9. When \<open>isConnected\<close> is false, the key handler appends the entry
  "Connection is broken. Unable to send log." to the local log store and returns without
  an event; nothing is handed to \<open>logChan\<close> and nothing is written to the socket, also not
  by the next step of the sender goroutine. The handler returns normally in every case.
\<close>

theorem inputCapture_disconnected:
  assumes "\<not> isConnected c"
  shows "inputCapture rune timestamp receiverReady c
           = (None, c\<lparr>localLogs :=
                AddLog ''Connection is broken. Unable to send log.'' (localLogs c)\<rparr>)
       \<and> logs (localLogs (snd (inputCapture rune timestamp receiverReady c)))
           = logs (localLogs c) @ [''Connection is broken. Unable to send log.'']
       \<and> logChan (snd (inputCapture rune timestamp receiverReady c)) = logChan c
       \<and> wire (snd (inputCapture rune timestamp receiverReady c)) = wire c
       \<and> wire (senderLogMsg writeOk (snd (inputCapture rune timestamp receiverReady c)))
           = wire (senderLogMsg writeOk c)"
  using assms
  by (simp add: inputCapture_def AddLog_def senderLogMsg_def Let_def split: list.splits)

theorem inputCapture_disconnected_witness:
  "\<not> isConnected \<lparr>isConnected = False, dialedConn = None, localLogs = \<lparr>logs = []\<rparr>,
        logChan = [], wire = [], stopped = False\<rparr>
   \<and> inputCapture 73 ''2024-01-01 10:00:00'' True
       \<lparr>isConnected = False, dialedConn = None, localLogs = \<lparr>logs = []\<rparr>, logChan = [],
        wire = [], stopped = False\<rparr>
     = (None, \<lparr>isConnected = False, dialedConn = None,
          localLogs = \<lparr>logs = [''Connection is broken. Unable to send log.'']\<rparr>,
          logChan = [], wire = [], stopped = False\<rparr>)"
  using inputCapture_disconnected [of "\<lparr>isConnected = False, dialedConn = None,
      localLogs = \<lparr>logs = []\<rparr>, logChan = [], wire = [], stopped = False\<rparr>"
      73 "''2024-01-01 10:00:00''" True True]
  by (simp add: AddLog_def)

text \<open>
  C10. For a limit that is not negative and a store of \<open>n\<close> entries, \<open>GetLogs\<close> returns the
  last \<open>min limit n\<close> entries in stored order, all of them when \<open>n \<le> limit\<close>, and the store
  is as before.
\<close>

theorem GetLogs_last:
  assumes "0 \<le> limit"
  shows "GetLogs limit lm
           = (Inr (drop (length (logs lm) - min (nat limit) (length (logs lm))) (logs lm)), lm)
       \<and> (int (length (logs lm)) \<le> limit \<longrightarrow> fst (GetLogs limit lm) = Inr (logs lm))"
  using assms
  by (auto simp: GetLogs_def min_def nat_diff_distrib' intro: arg_cong2 [where f = drop])

theorem GetLogs_last_witness:
  "(0::int) \<le> 2
   \<and> GetLogs 2 \<lparr>logs = [''a'', ''b'', ''c'']\<rparr>
       = (Inr [''b'', ''c''], \<lparr>logs = [''a'', ''b'', ''c'']\<rparr>)
   \<and> GetLogs 5 \<lparr>logs = [''a'', ''b'', ''c'']\<rparr>
       = (Inr [''a'', ''b'', ''c''], \<lparr>logs = [''a'', ''b'', ''c'']\<rparr>)"
  using GetLogs_last [of 2 "\<lparr>logs = [''a'', ''b'', ''c'']\<rparr>"]
    GetLogs_last [of 5 "\<lparr>logs = [''a'', ''b'', ''c'']\<rparr>"]
  by simp

end
